theory Spec2Isabelle
  imports Complex_Main "HOL-Library.Log_Nat"
begin

section \<open>Python numbers\<close>

text \<open>
  The engine of \<^verbatim>\<open>app_streamlit.py\<close> computes with Python \<^verbatim>\<open>int\<close> and
  \<^verbatim>\<open>float\<close> values. A Python float is an IEEE 754 binary64 number: a dyadic number
  \<open>m * 2^e\<close> whose mantissa \<open>m\<close> has at most 53 bits, and every arithmetic operation
  returns the exact result rounded to the nearest such number, ties to the even mantissa.
  Numbers are modelled by their value in \<^typ>\<open>real\<close>; the rounding is \<open>fl\<close>.
  The exponent is not bounded in the model, so \<open>fl\<close> is the binary64 rounding wherever
  the result is zero or has a magnitude from \<open>2^-1022\<close> up to \<open>2^1024\<close>: infinities,
  NaN and subnormal numbers are left out. The engine only multiplies and subtracts numbers
  of moderate size, and a slider value is an int of at most three digits, so its results
  stay far inside that range.
\<close>

definition pow2 :: "int \<Rightarrow> real" where
  "pow2 k = (if 0 \<le> k then 2 ^ nat k else 1 / 2 ^ nat (- k))"

text \<open>Rounding to the nearest integer, a tie going to the even neighbour.\<close>

definition round_half_even :: "real \<Rightarrow> int" where
  "round_half_even x =
     (let f = \<lfloor>x\<rfloor>; d = x - of_int f
      in if d < 1 / 2 then f
         else if 1 / 2 < d then f + 1
         else if even f then f else f + 1)"

text \<open>The binary exponent \<open>\<lfloor>log\<^sub>2 x\<rfloor>\<close> of a positive number.\<close>

definition binade :: "real \<Rightarrow> int" where
  "binade x = (if 1 \<le> x then bitlen \<lfloor>x\<rfloor> - 1 else - bitlen (\<lceil>1 / x\<rceil> - 1))"

text \<open>The spacing of binary64 numbers around a positive \<open>x\<close>: 53 bits of mantissa.\<close>

definition ulp :: "real \<Rightarrow> real" where
  "ulp x = pow2 (binade x - 52)"

definition fl_pos :: "real \<Rightarrow> real" where
  "fl_pos x = of_int (round_half_even (x / ulp x)) * ulp x"

definition fl :: "real \<Rightarrow> real" where
  "fl x = (if x = 0 then 0 else if 0 < x then fl_pos x else - fl_pos (- x))"

text \<open>
  A float literal of the source text denotes the binary64 number nearest to its decimal
  value. A binary operator with a float operand converts both operands to float (which
  leaves a float as it is and is exact on an int below \<open>2^53\<close>) and rounds the exact
  result. The true division \<^verbatim>\<open>/\<close> of two ints rounds their exact quotient.
\<close>

definition float_lit :: "real \<Rightarrow> real" where
  "float_lit q = fl q"

definition fmul :: "real \<Rightarrow> real \<Rightarrow> real" where
  "fmul x y = fl (fl x * fl y)"

definition fsub :: "real \<Rightarrow> real \<Rightarrow> real" where
  "fsub x y = fl (fl x - fl y)"

definition int_truediv :: "int \<Rightarrow> int \<Rightarrow> real" where
  "int_truediv a b = fl (of_int a / of_int b)"

text \<open>
  Python's \<^verbatim>\<open>max(a, b)\<close> keeps the first argument unless the second is greater.
\<close>

definition py_max :: "real \<Rightarrow> real \<Rightarrow> real" where
  "py_max a b = (if a < b then b else a)"

text \<open>\<^verbatim>\<open>needle in haystack\<close> on strings: the needle occurs as a contiguous piece.\<close>

fun str_prefix :: "string \<Rightarrow> string \<Rightarrow> bool" where
  "str_prefix [] ys = True"
| "str_prefix (x # xs) [] = False"
| "str_prefix (x # xs) (y # ys) = (x = y \<and> str_prefix xs ys)"

fun str_in :: "string \<Rightarrow> string \<Rightarrow> bool" where
  "str_in needle [] = (needle = [])"
| "str_in needle (c # cs) = (str_prefix needle (c # cs) \<or> str_in needle cs)"

section \<open>The inputs\<close>

text \<open>
  The four sidebar widgets: two integer sliders, a select box over three labels and a
  check box.
\<close>

record input =
  rainfall :: int
  cover_pct :: int
  mowing_time :: string
  climate_change :: bool

definition mowing_options :: "string list" where
  "mowing_options = [''Early (March)'', ''Late (May)'', ''Unmowed'']"

text \<open>
  What the widgets can deliver: the bounds \<^verbatim>\<open>min_value\<close> and \<^verbatim>\<open>max_value\<close> of
  the sliders and the options of the select box.
\<close>

definition valid_input :: "input \<Rightarrow> bool" where
  "valid_input i \<longleftrightarrow>
     200 \<le> rainfall i \<and> rainfall i \<le> 800 \<and>
     0 \<le> cover_pct i \<and> cover_pct i \<le> 100 \<and>
     mowing_time i \<in> set mowing_options"



text \<open>
  An int below \<open>2^53\<close> in magnitude is a float itself (\<open>fl_int_exact\<close>), and what the
  engine computes from two such ints stays below \<open>2^116\<close> in magnitude
  (\<open>moderate_no_overflow\<close>), far from the largest float: on these inputs no conversion
  to float fails and no operation overflows.
\<close>

definition moderate_input :: "input \<Rightarrow> bool" where
  "moderate_input i \<longleftrightarrow> \<bar>rainfall i\<bar> < 2 ^ 53 \<and> \<bar>cover_pct i\<bar> < 2 ^ 53"

section \<open>The mathematical engine\<close>

text \<open>Each script variable is a function of the inputs, in the order of the script.\<close>

definition actual_rainfall :: "input \<Rightarrow> real" where
  "actual_rainfall i =
     (if climate_change i then fmul (of_int (rainfall i)) (float_lit (9 / 10))
      else of_int (rainfall i))"

definition base_runoff_pct :: "input \<Rightarrow> real" where
  "base_runoff_pct i =
     (if climate_change i then float_lit (30 / 100) else float_lit (20 / 100))"

definition runoff_reduction :: "input \<Rightarrow> real" where
  "runoff_reduction i = fmul (int_truediv (cover_pct i) 10) (float_lit (1 / 100))"

definition final_runoff_pct :: "input \<Rightarrow> real" where
  "final_runoff_pct i =
     py_max (float_lit (5 / 100)) (fsub (base_runoff_pct i) (runoff_reduction i))"

definition runoff_mm :: "input \<Rightarrow> real" where
  "runoff_mm i = fmul (actual_rainfall i) (final_runoff_pct i)"

definition base_evap :: real where
  "base_evap = 120"

definition evap_savings :: "input \<Rightarrow> real" where
  "evap_savings i =
     (if str_in ''Early'' (mowing_time i) \<or> str_in ''Late'' (mowing_time i)
      then fmul (int_truediv (cover_pct i) 30) (float_lit (165 / 10))
      else 0)"

text \<open>
  Without savings \<^verbatim>\<open>base_evap - evap_savings\<close> subtracts two ints, exactly; \<open>fsub\<close>
  gives the same number, 120 and 0 being floats as well.
\<close>

definition evap_mm :: "input \<Rightarrow> real" where
  "evap_mm i = py_max 30 (fsub base_evap (evap_savings i))"

definition transp_mm :: "input \<Rightarrow> real" where
  "transp_mm i =
     (if mowing_time i = ''Early (March)'' then fmul (int_truediv (cover_pct i) 50) 70
      else if mowing_time i = ''Late (May)'' then fmul (int_truediv (cover_pct i) 50) 110
      else fmul (int_truediv (cover_pct i) 50) 150)"

definition net_water :: "input \<Rightarrow> real" where
  "net_water i =
     fsub (fsub (fsub (actual_rainfall i) (runoff_mm i)) (evap_mm i)) (transp_mm i)"

definition yield_kg :: "input \<Rightarrow> real" where
  "yield_kg i = py_max 0 (fsub (fmul 10 (net_water i)) 1300)"

definition years :: "nat list" where
  "years = [1..<21]"

definition erosion_rate :: "input \<Rightarrow> real" where
  "erosion_rate i =
     (let bare = (if climate_change i then float_lit 3 else float_lit 2)
      in if 30 \<le> cover_pct i then float_lit (2 / 10) else bare)"

text \<open>
  The loop \<^verbatim>\<open>for y in range(1, 20)\<close> appends to the list the last entry less the
  erosion rate. The list starts as \<^verbatim>\<open>[1000]\<close> and only grows, so \<^verbatim>\<open>soil_depth[-1]\<close>
  never meets an empty list.
\<close>

definition soil_step :: "real \<Rightarrow> nat \<Rightarrow> real list \<Rightarrow> real list" where
  "soil_step rate y depths = depths @ [fsub (last depths) rate]"

definition soil_depth :: "input \<Rightarrow> real list" where
  "soil_depth i = fold (soil_step (erosion_rate i)) [1..<20] [1000]"

text \<open>
  The table behind the line chart pairs each year with its depth
  (\<^verbatim>\<open>pd.DataFrame({"Year": years, "Soil Depth (mm)": soil_depth})\<close>).
\<close>

definition soil_df :: "input \<Rightarrow> (nat \<times> real) list" where
  "soil_df i = zip years (soil_depth i)"

section \<open>Test inputs\<close>

text \<open>
  The values the widgets start with: \<^verbatim>\<open>value=400\<close>, \<^verbatim>\<open>value=30\<close>, the first option of
  the select box and an unticked check box.
\<close>

definition default_input :: input where
  "default_input =
     \<lparr>rainfall = 400, cover_pct = 30, mowing_time = ''Early (March)'',
      climate_change = False\<rparr>"

text \<open>Bare soil, never mowed, under the climate scenario.\<close>

definition bare_climate_input :: input where
  "bare_climate_input =
     \<lparr>rainfall = 400, cover_pct = 0, mowing_time = ''Unmowed'', climate_change = True\<rparr>"

text \<open>The driest year under full cover that is never mowed.\<close>

definition dry_full_cover_input :: "bool \<Rightarrow> input" where
  "dry_full_cover_input c =
     \<lparr>rainfall = 200, cover_pct = 100, mowing_time = ''Unmowed'', climate_change = c\<rparr>"



text \<open>A list of depths in which every entry is below the one before it.\<close>

fun strictly_decreasing :: "real list \<Rightarrow> bool" where
  "strictly_decreasing (a # b # rest) = (b < a \<and> strictly_decreasing (b # rest))"
| "strictly_decreasing _ = True"

section \<open>Properties of the rounding\<close>

text \<open>
  What makes \<open>fl\<close> the rounding to nearest: it stays within half a unit in the last
  place of its argument (\<open>fl_near\<close>), it leaves every number with a 53-bit mantissa as it
  is (\<open>fl_mantissa\<close>, \<open>fl_idem\<close>, \<open>fl_int_exact\<close>), and it keeps the order
  (\<open>fl_mono\<close>).
\<close>

lemma pow2_powi: "pow2 k = power_int 2 k"
  by (simp add: pow2_def power_int_def power_inverse inverse_eq_divide power_one_over)

lemma pow2_pos: "0 < pow2 k"
  by (simp add: pow2_def)

lemma pow2_add: "pow2 (a + b) = pow2 a * pow2 b"
  by (simp add: pow2_powi power_int_add)

lemma pow2_one: "pow2 1 = 2"
  by (simp add: pow2_def)

lemma pow2_Suc: "pow2 (k + 1) = 2 * pow2 k"
  by (simp only: pow2_add pow2_one mult.commute)

lemma pow2_mono: "a \<le> b \<Longrightarrow> pow2 a \<le> pow2 b"
  by (simp add: pow2_powi power_int_increasing)

lemma pow2_nat: "pow2 (int n) = 2 ^ n"
  by (simp add: pow2_def)

lemma pow2_neg: "pow2 (- k) = 1 / pow2 k"
  by (simp add: pow2_powi power_int_minus_divide)

lemma bitlen_real_bounds:
  assumes "0 < n"
  shows "pow2 (bitlen n - 1) \<le> of_int n" and "of_int n < pow2 (bitlen n)"
proof -
  have b: "1 \<le> bitlen n" using assms by (simp add: bitlen_alt_def)
  from bitlen_bounds [OF assms]
  have lo: "2 ^ nat (bitlen n - 1) \<le> n" and hi: "n < 2 ^ nat (bitlen n)" by simp_all
  have "(of_int (2 ^ nat (bitlen n - 1)) :: real) \<le> of_int n"
    using lo by (simp only: of_int_le_iff)
  then show "pow2 (bitlen n - 1) \<le> of_int n"
    using b by (simp add: pow2_def)
  have "(of_int n :: real) < of_int (2 ^ nat (bitlen n))"
    using hi by (simp only: of_int_less_iff)
  then show "of_int n < pow2 (bitlen n)"
    using b by (simp add: pow2_def)
qed

lemma binade_lower:
  assumes "0 < x"
  shows "pow2 (binade x) \<le> x"
proof (cases "1 \<le> x")
  case True
  then have pos: "0 < \<lfloor>x\<rfloor>" by linarith
  have "pow2 (bitlen \<lfloor>x\<rfloor> - 1) \<le> of_int \<lfloor>x\<rfloor>"
    by (rule bitlen_real_bounds(1) [OF pos])
  also have "\<dots> \<le> x" by simp
  finally show ?thesis using True by (simp add: binade_def)
next
  case False
  define n where "n = \<lceil>1 / x\<rceil> - 1"
  have inv: "1 < 1 / x" using False assms by simp
  then have npos: "0 < n" unfolding n_def by linarith
  have "1 / x \<le> of_int (n + 1)" unfolding n_def by simp
  also have "of_int (n + 1) \<le> pow2 (bitlen n)"
  proof -
    have "n < 2 ^ nat (bitlen n)" using bitlen_bounds [OF npos] by simp
    then have "n + 1 \<le> 2 ^ nat (bitlen n)" by simp
    then have "(of_int (n + 1) :: real) \<le> of_int (2 ^ nat (bitlen n))"
      by (simp only: of_int_le_iff)
    then show ?thesis using bitlen_nonneg [of n] by (simp add: pow2_def)
  qed
  finally have "1 / x \<le> pow2 (bitlen n)" .
  then have "1 / pow2 (bitlen n) \<le> x"
    using assms pow2_pos [of "bitlen n"] by (simp add: field_simps)
  then show ?thesis
    using False by (simp add: binade_def n_def pow2_neg)
qed

lemma binade_upper:
  assumes "0 < x"
  shows "x < pow2 (binade x + 1)"
proof (cases "1 \<le> x")
  case True
  then have pos: "0 < \<lfloor>x\<rfloor>" by linarith
  have "\<lfloor>x\<rfloor> < 2 ^ nat (bitlen \<lfloor>x\<rfloor>)" using bitlen_bounds [OF pos] by simp
  then have "x < of_int (2 ^ nat (bitlen \<lfloor>x\<rfloor>))"
    by (simp only: floor_less_iff)
  then show ?thesis using True bitlen_nonneg [of "\<lfloor>x\<rfloor>"] by (simp add: binade_def pow2_def)
next
  case False
  define n where "n = \<lceil>1 / x\<rceil> - 1"
  have inv: "1 < 1 / x" using False assms by simp
  then have npos: "0 < n" unfolding n_def by linarith
  have "pow2 (bitlen n - 1) \<le> of_int n" by (rule bitlen_real_bounds(1) [OF npos])
  also have "of_int n < 1 / x" unfolding n_def by linarith
  finally have "pow2 (bitlen n - 1) < 1 / x" .
  then have "x < 1 / pow2 (bitlen n - 1)"
    using assms pow2_pos [of "bitlen n - 1"] by (simp add: field_simps)
  also have "1 / pow2 (bitlen n - 1) = pow2 (- bitlen n + 1)"
    using pow2_neg [of "bitlen n - 1"] by simp
  finally show ?thesis
    using False by (simp add: binade_def n_def)
qed

lemma binade_unique:
  assumes "pow2 k \<le> x" and "x < pow2 (k + 1)"
  shows "binade x = k"
proof -
  have pos: "0 < x" using assms(1) pow2_pos [of k] by linarith
  have "\<not> binade x < k"
  proof
    assume "binade x < k"
    then have "pow2 (binade x + 1) \<le> pow2 k" by (intro pow2_mono) simp
    with binade_upper [OF pos] assms(1) show False by linarith
  qed
  moreover have "\<not> k < binade x"
  proof
    assume "k < binade x"
    then have "pow2 (k + 1) \<le> pow2 (binade x)" by (intro pow2_mono) simp
    with binade_lower [OF pos] assms(2) show False by linarith
  qed
  ultimately show ?thesis by linarith
qed


lemma rhe_near: "\<bar>of_int (round_half_even x) - x\<bar> \<le> 1 / 2"
proof -
  define d where "d = x - of_int \<lfloor>x\<rfloor>"
  have d: "0 \<le> d" "d < 1" unfolding d_def by linarith+
  have x: "x = of_int \<lfloor>x\<rfloor> + d" unfolding d_def by simp
  have r: "round_half_even x =
      (if d < 1 / 2 then \<lfloor>x\<rfloor> else if 1 / 2 < d then \<lfloor>x\<rfloor> + 1
       else if even \<lfloor>x\<rfloor> then \<lfloor>x\<rfloor> else \<lfloor>x\<rfloor> + 1)"
    unfolding round_half_even_def Let_def d_def ..
  have "\<bar>of_int (round_half_even x) - (of_int \<lfloor>x\<rfloor> + d)\<bar> \<le> 1 / 2"
    unfolding r using d by (auto simp: abs_if)
  with x show ?thesis by simp
qed

lemma rhe_of_int: "round_half_even (of_int n) = n"
  by (simp add: round_half_even_def)

lemma rhe_floor: "\<lfloor>x\<rfloor> \<le> round_half_even x" and rhe_ceil: "round_half_even x \<le> \<lfloor>x\<rfloor> + 1"
  by (simp_all add: round_half_even_def Let_def)

lemma rhe_mono:
  assumes "x \<le> y"
  shows "round_half_even x \<le> round_half_even y"
proof (cases "\<lfloor>x\<rfloor> = \<lfloor>y\<rfloor>")
  case True
  with assms have "x - of_int \<lfloor>x\<rfloor> \<le> y - of_int \<lfloor>y\<rfloor>" by simp
  with True show ?thesis
    by (simp add: round_half_even_def Let_def)
next
  case False
  from assms have "\<lfloor>x\<rfloor> \<le> \<lfloor>y\<rfloor>" by (rule floor_mono)
  with False have "\<lfloor>x\<rfloor> + 1 \<le> \<lfloor>y\<rfloor>" by simp
  with rhe_ceil [of x] rhe_floor [of y] show ?thesis by linarith
qed

lemma rhe_ge: "of_int a \<le> x \<Longrightarrow> a \<le> round_half_even x"
  using rhe_mono [of "of_int a" x] by (simp add: rhe_of_int)

lemma rhe_le: "x \<le> of_int b \<Longrightarrow> round_half_even x \<le> b"
  using rhe_mono [of x "of_int b"] by (simp add: rhe_of_int)

lemma rhe_minus: "round_half_even (- x) = - round_half_even x"
proof (cases "x = of_int \<lfloor>x\<rfloor>")
  case True
  then obtain n where "x = of_int n" ..
  then have "- x = of_int (- n)" by simp
  then show ?thesis using \<open>x = of_int n\<close> by (simp only: rhe_of_int)
next
  case False
  then have c: "\<lceil>x\<rceil> = \<lfloor>x\<rfloor> + 1"
    by (metis ceiling_altdef)
  have f: "\<lfloor>- x\<rfloor> = - \<lfloor>x\<rfloor> - 1"
    using c by (simp add: ceiling_def)
  show ?thesis
    unfolding round_half_even_def Let_def f
    by (auto simp: field_simps)
qed


lemma ulp_pos: "0 < ulp x"
  by (simp add: ulp_def pow2_pos)

lemma pow2_neq0: "pow2 k \<noteq> 0"
  using pow2_pos [of k] by simp

lemma pow2_split52: "pow2 k = 2 ^ 52 * pow2 (k - 52)"
  using pow2_add [of 52 "k - 52"] pow2_nat [of 52] by simp

lemma pow2_split53: "pow2 (k + 1) = 2 ^ 53 * pow2 (k - 52)"
  using pow2_add [of 53 "k - 52"] pow2_nat [of 53] by (simp add: add.commute)

lemma scaled_bounds:
  assumes "0 < x"
  shows "2 ^ 52 \<le> x / ulp x" and "x / ulp x < 2 ^ 53"
proof -
  have "2 ^ 52 * ulp x \<le> x"
    using binade_lower [OF assms] pow2_split52 [of "binade x"] by (simp add: ulp_def)
  then show "2 ^ 52 \<le> x / ulp x"
    using ulp_pos [of x] by (simp add: pos_le_divide_eq)
  have "x < 2 ^ 53 * ulp x"
    using binade_upper [OF assms] pow2_split53 [of "binade x"] by (simp add: ulp_def)
  then show "x / ulp x < 2 ^ 53"
    using ulp_pos [of x] by (simp add: pos_divide_less_eq)
qed

lemma mantissa_bounds:
  assumes "0 < x"
  shows "2 ^ 52 \<le> round_half_even (x / ulp x)" and "round_half_even (x / ulp x) \<le> 2 ^ 53"
proof -
  have "of_int (2 ^ 52) \<le> x / ulp x" using scaled_bounds(1) [OF assms] by simp
  then show "2 ^ 52 \<le> round_half_even (x / ulp x)" by (rule rhe_ge)
  have "x / ulp x \<le> of_int (2 ^ 53)" using scaled_bounds(2) [OF assms] by simp
  then show "round_half_even (x / ulp x) \<le> 2 ^ 53" by (rule rhe_le)
qed

lemma fl_pos_bounds:
  assumes "0 < x"
  shows "pow2 (binade x) \<le> fl_pos x" and "fl_pos x \<le> pow2 (binade x + 1)"
proof -
  let ?m = "round_half_even (x / ulp x)"
  have "(of_int (2 ^ 52) :: real) \<le> of_int ?m"
    using mantissa_bounds(1) [OF assms] by (simp only: of_int_le_iff)
  then have "2 ^ 52 * ulp x \<le> of_int ?m * ulp x"
    using ulp_pos [of x] by simp
  then show "pow2 (binade x) \<le> fl_pos x"
    using pow2_split52 [of "binade x"] by (simp add: fl_pos_def ulp_def)
  have "(of_int ?m :: real) \<le> of_int (2 ^ 53)"
    using mantissa_bounds(2) [OF assms] by (simp only: of_int_le_iff)
  then have "of_int ?m * ulp x \<le> 2 ^ 53 * ulp x"
    using ulp_pos [of x] by simp
  then show "fl_pos x \<le> pow2 (binade x + 1)"
    using pow2_split53 [of "binade x"] by (simp add: fl_pos_def ulp_def)
qed

lemma fl_pos_pos: "0 < x \<Longrightarrow> 0 < fl_pos x"
  using fl_pos_bounds(1) [of x] pow2_pos [of "binade x"] by linarith

lemma fl_pos_near:
  assumes "0 < x"
  shows "\<bar>fl_pos x - x\<bar> \<le> ulp x / 2"
proof -
  have "\<bar>of_int (round_half_even (x / ulp x)) - x / ulp x\<bar> * ulp x \<le> 1 / 2 * ulp x"
    using rhe_near [of "x / ulp x"] ulp_pos [of x] by (intro mult_right_mono) simp_all
  moreover have "fl_pos x - x = (of_int (round_half_even (x / ulp x)) - x / ulp x) * ulp x"
    using ulp_pos [of x] by (simp add: fl_pos_def left_diff_distrib)
  then have "\<bar>fl_pos x - x\<bar> = \<bar>of_int (round_half_even (x / ulp x)) - x / ulp x\<bar> * ulp x"
    using ulp_pos [of x] by (simp add: abs_mult)
  ultimately show ?thesis by simp
qed

lemma binade_mono:
  assumes "0 < x" and "x \<le> y"
  shows "binade x \<le> binade y"
proof (rule ccontr)
  assume "\<not> binade x \<le> binade y"
  then have "pow2 (binade y + 1) \<le> pow2 (binade x)" by (intro pow2_mono) simp
  moreover have "0 < y" using assms by simp
  ultimately show False
    using binade_lower [OF assms(1)] binade_upper [of y] assms(2) by linarith
qed

lemma fl_pos_mono:
  assumes "0 < x" and "x \<le> y"
  shows "fl_pos x \<le> fl_pos y"
proof (cases "binade x = binade y")
  case True
  then have u: "ulp x = ulp y" by (simp add: ulp_def)
  have "x / ulp y \<le> y / ulp y"
    using assms(2) ulp_pos [of y] by (simp add: divide_right_mono)
  then have "round_half_even (x / ulp y) \<le> round_half_even (y / ulp y)" by (rule rhe_mono)
  then have "(of_int (round_half_even (x / ulp y)) :: real) \<le> of_int (round_half_even (y / ulp y))"
    by (simp only: of_int_le_iff)
  then show ?thesis
    using ulp_pos [of y] by (simp add: fl_pos_def u)
next
  case False
  with binade_mono [OF assms] have "binade x + 1 \<le> binade y" by simp
  then have "pow2 (binade x + 1) \<le> pow2 (binade y)" by (rule pow2_mono)
  moreover have "0 < y" using assms by simp
  ultimately show ?thesis
    using fl_pos_bounds(2) [OF assms(1)] fl_pos_bounds(1) [of y] by linarith
qed

lemma fl_zero: "fl 0 = 0"
  by (simp add: fl_def)

lemma fl_minus: "fl (- x) = - fl x"
  by (simp add: fl_def)

lemma fl_nonneg: "0 \<le> x \<Longrightarrow> 0 \<le> fl x"
  using fl_pos_pos [of x] by (cases "x = 0") (simp_all add: fl_def)

lemma fl_pos_iff: "0 < fl x \<longleftrightarrow> 0 < x"
  using fl_pos_pos [of x] fl_pos_pos [of "- x"] by (auto simp: fl_def split: if_splits)

lemma fl_mono:
  assumes "x \<le> y"
  shows "fl x \<le> fl y"
proof -
  consider "0 < x" | "x \<le> 0" "0 \<le> y" | "y < 0" using assms by linarith
  then show ?thesis
  proof cases
    case 1
    then show ?thesis using assms fl_pos_mono [of x y] by (simp add: fl_def)
  next
    case 2
    have "fl x \<le> 0" using fl_nonneg [of "- x"] 2(1) by (simp add: fl_minus)
    moreover have "0 \<le> fl y" using 2(2) by (rule fl_nonneg)
    ultimately show ?thesis by simp
  next
    case 3
    then have "0 < - y" "- y \<le> - x" using assms by simp_all
    then have "fl_pos (- y) \<le> fl_pos (- x)" by (rule fl_pos_mono)
    then show ?thesis using 3 assms by (simp add: fl_def)
  qed
qed

lemma fl_near:
  assumes "x \<noteq> 0"
  shows "\<bar>fl x - x\<bar> \<le> ulp \<bar>x\<bar> / 2"
proof (cases "0 < x")
  case True
  then show ?thesis using fl_pos_near [of x] by (simp add: fl_def)
next
  case False
  with assms have neg: "x < 0" by simp
  then have "fl x - x = - (fl_pos (- x) - (- x))" by (simp add: fl_def)
  then have "\<bar>fl x - x\<bar> = \<bar>fl_pos (- x) - (- x)\<bar>" by (simp only: abs_minus)
  then show ?thesis using fl_pos_near [of "- x"] neg by simp
qed

text \<open>Numbers that are already binary64 numbers are left as they are.\<close>

lemma fl_pos_exact:
  assumes "0 < x" and "x / ulp x = of_int k"
  shows "fl_pos x = x"
proof -
  have "fl_pos x = (x / ulp x) * ulp x"
    unfolding fl_pos_def assms(2) rhe_of_int ..
  then show ?thesis using ulp_pos [of x] by simp
qed

lemma pow2_shift: "pow2 (e + int n) = 2 ^ n * pow2 e"
  by (simp add: pow2_add pow2_nat)

lemma pow2_shift52: "pow2 (e + 52) = 2 ^ 52 * pow2 e"
  using pow2_shift [of e 52] by simp

lemma pow2_shift53: "pow2 (e + 53) = 2 ^ 53 * pow2 e"
  using pow2_shift [of e 53] by simp

lemma fl_mantissa:
  assumes "2 ^ 52 \<le> m" and "m \<le> 2 ^ 53"
  shows "fl (of_int m * pow2 e) = of_int m * pow2 e"
proof -
  let ?x = "of_int m * pow2 e :: real"
  have mpos: "(0::real) < of_int m" using assms(1) by simp
  have pos: "0 < ?x" using mpos pow2_pos [of e] by simp
  show ?thesis
  proof (cases "m = 2 ^ 53")
    case True
    then have x: "?x = pow2 (e + 53)" by (simp only: pow2_shift53) simp
    have "pow2 (e + 53) < pow2 (e + 53 + 1)"
      using pow2_Suc [of "e + 53"] pow2_pos [of "e + 53"] by simp
    then have b: "binade ?x = e + 53" unfolding x by (intro binade_unique) simp_all
    have "pow2 (e + 53) = 2 ^ 52 * pow2 (e + 53 - 52)" by (rule pow2_split52)
    then have "?x / ulp ?x = of_int (2 ^ 52)"
      unfolding ulp_def b unfolding x by (simp add: pow2_neq0)
    from fl_pos_exact [OF pos this] show ?thesis using pos by (simp add: fl_def)
  next
    case False
    with assms have lt: "m < 2 ^ 53" by simp
    have "(of_int (2 ^ 52) :: real) \<le> of_int m" using assms(1) by (simp only: of_int_le_iff)
    then have "2 ^ 52 * pow2 e \<le> ?x" using pow2_pos [of e] by simp
    then have lo: "pow2 (e + 52) \<le> ?x" by (simp only: pow2_shift52)
    have "(of_int m :: real) < of_int (2 ^ 53)" using lt by (simp only: of_int_less_iff)
    then have "?x < 2 ^ 53 * pow2 e" using pow2_pos [of e] by simp
    then have "?x < pow2 (e + 53)" by (simp only: pow2_shift53)
    moreover have "e + 52 + 1 = e + 53" by simp
    ultimately have hi: "?x < pow2 (e + 52 + 1)" by (simp only:)
    have b: "binade ?x = e + 52" using lo hi by (rule binade_unique)
    have "?x / ulp ?x = of_int m"
      unfolding ulp_def b by (simp add: pow2_neq0)
    from fl_pos_exact [OF pos this] show ?thesis using pos by (simp add: fl_def)
  qed
qed

lemma fl_idem: "fl (fl x) = fl x"
proof -
  have pos: "fl (fl_pos y) = fl_pos y" if "0 < y" for y
    unfolding fl_pos_def ulp_def
    using mantissa_bounds [OF that] by (intro fl_mantissa) (simp_all add: ulp_def)
  consider "x = 0" | "0 < x" | "x < 0" by linarith
  then show ?thesis
  proof cases
    case 1
    then show ?thesis by (simp add: fl_zero)
  next
    case 2
    then show ?thesis using pos [of x] by (simp add: fl_def)
  next
    case 3
    then have "fl x = - fl_pos (- x)" by (simp add: fl_def)
    then show ?thesis using pos [of "- x"] 3 by (simp add: fl_minus)
  qed
qed


lemma fl_nat_exact:
  assumes "0 < n" and "n \<le> 2 ^ 53"
  shows "fl (of_int n) = of_int n"
proof (cases "n = 2 ^ 53")
  case True
  then show ?thesis using fl_mantissa [of "2 ^ 53" 0] by (simp add: pow2_def)
next
  case False
  with assms have lt: "n < 2 ^ 53" by simp
  let ?x = "of_int n :: real"
  have pos: "0 < ?x" using assms(1) by simp
  define e where "e = binade ?x"
  have "pow2 e \<le> ?x" unfolding e_def by (rule binade_lower [OF pos])
  also have "?x < of_int (2 ^ 53)" using lt by (simp only: of_int_less_iff)
  also have "of_int (2 ^ 53) = pow2 53" using pow2_nat [of 53] by simp
  finally have "pow2 e < pow2 53" .
  then have e: "e \<le> 52" using pow2_mono [of 53 e] by (cases "e \<le> 52") auto
  then have u: "ulp ?x = 1 / 2 ^ nat (52 - e)"
    unfolding ulp_def e_def [symmetric] by (simp add: pow2_def)
  have "?x / ulp ?x = of_int (n * 2 ^ nat (52 - e))"
    unfolding u by simp
  from fl_pos_exact [OF pos this] show ?thesis using pos by (simp add: fl_def)
qed

lemma fl_int_exact:
  assumes "\<bar>n\<bar> \<le> 2 ^ 53"
  shows "fl (of_int n) = of_int n"
proof -
  consider "n = 0" | "0 < n" | "n < 0" by linarith
  then show ?thesis
  proof cases
    case 1
    then show ?thesis by (simp add: fl_zero)
  next
    case 2
    then show ?thesis using assms by (intro fl_nat_exact) simp_all
  next
    case 3
    then have "fl (of_int (- n)) = of_int (- n)" using assms by (intro fl_nat_exact) simp_all
    then show ?thesis using fl_minus [of "of_int n"] by simp
  qed
qed

subsection \<open>Evaluating the rounding on numerals\<close>

lemma bitlen_One: "bitlen 1 = 1"
  by (subst compute_bitlen) simp

lemma bitlen_Bit0: "bitlen (numeral (Num.Bit0 n)) = bitlen (numeral n) + 1"
  by (subst compute_bitlen) simp

lemma bitlen_Bit1: "bitlen (numeral (Num.Bit1 n)) = bitlen (numeral n) + 1"
  by (subst compute_bitlen) simp

lemma bitlen_numeral_One: "bitlen (numeral Num.One) = 1"
  using bitlen_One by simp

lemmas fl_eval = fl_def fl_pos_def ulp_def binade_def pow2_def round_half_even_def Let_def
  bitlen_One bitlen_numeral_One bitlen_Bit0 bitlen_Bit1

lemmas py_eval = float_lit_def fmul_def fsub_def int_truediv_def py_max_def fl_eval

lemmas engine_defs = actual_rainfall_def base_runoff_pct_def runoff_reduction_def
  final_runoff_pct_def runoff_mm_def base_evap_def evap_savings_def evap_mm_def
  transp_mm_def net_water_def yield_kg_def erosion_rate_def

lemma default_actual: "actual_rainfall default_input = 400"
  by (simp add: actual_rainfall_def default_input_def)

lemma default_rr: "runoff_reduction default_input = float_lit (3 / 100)"
  by (simp add: runoff_reduction_def default_input_def py_eval)

lemma default_final: "final_runoff_pct default_input = float_lit (17 / 100)"
  by (simp add: final_runoff_pct_def base_runoff_pct_def runoff_reduction_def default_input_def py_eval)

lemma default_runoff: "runoff_mm default_input = 68"
  by (simp add: engine_defs default_input_def py_eval)

lemma default_es: "evap_savings default_input = 165 / 10"
  by (simp add: engine_defs default_input_def py_eval)

lemma default_evap: "evap_mm default_input = 1035 / 10"
  by (simp add: engine_defs default_input_def py_eval)

lemma default_transp: "transp_mm default_input = 42"
  by (simp add: engine_defs default_input_def py_eval)

lemma default_net: "net_water default_input = 1865 / 10"
  by (simp add: engine_defs default_input_def py_eval)

lemma default_yield: "yield_kg default_input = 565"
  by (simp add: engine_defs default_input_def py_eval)

lemma default_er: "erosion_rate default_input = float_lit (2 / 10)"
  by (simp add: engine_defs default_input_def)

lemma float_lit_3: "float_lit 3 = 3" by (simp add: py_eval)
lemma float_lit_2: "float_lit 2 = 2" by (simp add: py_eval)
lemma float_lit_02: "float_lit (2 / 10) = 3602879701896397 / 18014398509481984" by (simp add: py_eval)
lemma float_lit_005: "float_lit (5 / 100) = 3602879701896397 / 72057594037927936" by (simp add: py_eval)

lemma range_1_20:
  "[1..<20] = [1, 2, 3, 4, 5, 6, 7, 8, 9, 10, 11, 12, 13, 14, 15, 16, 17, 18, 19 :: nat]"
  by code_simp

lemma series_3: "strictly_decreasing (fold (soil_step 3) [1..<20] [1000])"
  unfolding range_1_20 by (simp add: soil_step_def py_eval)

lemma series_2: "strictly_decreasing (fold (soil_step 2) [1..<20] [1000])"
  unfolding range_1_20 by (simp add: soil_step_def py_eval)

lemma series_02: "strictly_decreasing (fold (soil_step (float_lit (2 / 10))) [1..<20] [1000])"
  unfolding range_1_20 float_lit_02 by (simp add: soil_step_def py_eval)

subsection \<open>Monotonicity of the float operations\<close>

lemma float_lit_nonneg: "0 \<le> q \<Longrightarrow> 0 \<le> float_lit q"
  by (simp add: float_lit_def fl_nonneg)

lemma int_truediv_mono: "0 < d \<Longrightarrow> a \<le> b \<Longrightarrow> int_truediv a d \<le> int_truediv b d"
  unfolding int_truediv_def by (intro fl_mono divide_right_mono) simp_all

lemma fmul_mono_left: "0 \<le> c \<Longrightarrow> x \<le> y \<Longrightarrow> fmul x c \<le> fmul y c"
  unfolding fmul_def by (intro fl_mono mult_right_mono fl_nonneg)

lemma fmul_mono_right: "0 \<le> c \<Longrightarrow> x \<le> y \<Longrightarrow> fmul c x \<le> fmul c y"
  unfolding fmul_def by (intro fl_mono mult_left_mono fl_nonneg)

lemma fmul_nonneg: "0 \<le> x \<Longrightarrow> 0 \<le> y \<Longrightarrow> 0 \<le> fmul x y"
  unfolding fmul_def by (intro fl_nonneg mult_nonneg_nonneg)

lemma fmul_commute: "fmul x y = fmul y x"
  by (simp add: fmul_def mult.commute)

lemma fsub_antimono_right: "x \<le> y \<Longrightarrow> fsub c y \<le> fsub c x"
  unfolding fsub_def by (intro fl_mono diff_left_mono)

lemma py_max_eq: "py_max a b = max a b"
  by (simp add: py_max_def max_def)

lemma py_max_mono: "x \<le> y \<Longrightarrow> py_max c x \<le> py_max c y"
  by (simp add: py_max_def)

subsection \<open>The soil loop\<close>

lemma soil_fold_length: "length (fold (soil_step r) ys ds) = length ds + length ys"
  by (induction ys arbitrary: ds) (simp_all add: soil_step_def)

lemma soil_fold_keep: "k < length ds \<Longrightarrow> fold (soil_step r) ys ds ! k = ds ! k"
  by (induction ys arbitrary: ds) (simp_all add: soil_step_def nth_append)

lemma soil_fold_step:
  assumes "ds \<noteq> []" and "length ds \<le> k" and "k < length ds + length ys"
  shows "fold (soil_step r) ys ds ! k = fsub (fold (soil_step r) ys ds ! (k - 1)) r"
  using assms
proof (induction ys arbitrary: ds)
  case Nil
  then show ?case by simp
next
  case (Cons y ys)
  let ?ds = "soil_step r y ds"
  have len: "length ?ds = Suc (length ds)" by (simp add: soil_step_def)
  have ne: "?ds \<noteq> []" by (simp add: soil_step_def)
  show ?case
  proof (cases "k = length ds")
    case True
    have "fold (soil_step r) ys ?ds ! k = ?ds ! k"
      using True len by (intro soil_fold_keep) simp
    also have "?ds ! k = fsub (last ds) r"
      using True by (simp add: soil_step_def)
    finally have here: "fold (soil_step r) ys ?ds ! k = fsub (last ds) r" .
    have "0 < length ds" using Cons.prems(1) by simp
    then have "fold (soil_step r) ys ?ds ! (k - 1) = ?ds ! (k - 1)"
      using True len by (intro soil_fold_keep) simp
    also have "?ds ! (k - 1) = ds ! (length ds - 1)"
      using True \<open>0 < length ds\<close> by (simp add: soil_step_def nth_append)
    also have "\<dots> = last ds"
      using Cons.prems(1) by (simp add: last_conv_nth)
    finally show ?thesis using here by simp
  next
    case False
    with Cons.prems have "length ?ds \<le> k" "k < length ?ds + length ys"
      using len by simp_all
    from Cons.IH [OF ne this] show ?thesis by simp
  qed
qed

lemma strictly_decreasing_nth:
  "strictly_decreasing xs \<Longrightarrow> 0 < n \<Longrightarrow> n < length xs \<Longrightarrow> xs ! n < xs ! (n - 1)"
proof (induction xs arbitrary: n rule: strictly_decreasing.induct)
  case (1 a b rest)
  show ?case
  proof (cases "n = 1")
    case True
    with "1.prems" show ?thesis by simp
  next
    case False
    with "1.prems" have "strictly_decreasing (b # rest)" "0 < n - 1" "n - 1 < length (b # rest)"
      by simp_all
    from "1.IH" [OF this] show ?thesis using False "1.prems"(2) by (simp add: nth_Cons')
  qed
qed simp_all

lemma erosion_rate_cases:
  "erosion_rate i = float_lit (2 / 10) \<or> erosion_rate i = 2 \<or> erosion_rate i = 3"
  by (simp add: erosion_rate_def float_lit_3 float_lit_2)

lemma soil_depth_decreasing: "strictly_decreasing (soil_depth i)"
  using erosion_rate_cases [of i] unfolding soil_depth_def
  by (elim disjE) (simp_all only: series_02 series_2 series_3)

lemma valid_default: "valid_input default_input"
  by (simp add: valid_input_def default_input_def mowing_options_def)

lemma valid_bare_climate: "valid_input bare_climate_input"
  by (simp add: valid_input_def bare_climate_input_def mowing_options_def)

lemma valid_dry_full_cover: "valid_input (dry_full_cover_input c)"
  by (simp add: valid_input_def dry_full_cover_input_def mowing_options_def)

lemma default_base: "base_runoff_pct default_input = float_lit (20 / 100)"
  by (simp add: base_runoff_pct_def default_input_def)

section \<open>The two worked scenarios\<close>

text \<open>
  C1. With the inputs the widgets start with (rainfall 400, cover 30, mowing
  \<^verbatim>\<open>Early (March)\<close>, no climate scenario) the engine computes actual rainfall 400, base
  runoff fraction 0.20, runoff reduction 0.03, final runoff fraction 0.17, runoff 68 mm,
  evaporation savings 16.5, evaporation 103.5 mm, transpiration 42 mm, net water 186.5 mm,
  yield 565 kg and erosion rate 0.2. A decimal that is not a binary64 number (0.20, 0.03,
  0.17, 0.2) stands for the float that Python reads from it.
\<close>

theorem scenario_default:
  "actual_rainfall default_input = 400 \<and>
   base_runoff_pct default_input = float_lit (20 / 100) \<and>
   runoff_reduction default_input = float_lit (3 / 100) \<and>
   final_runoff_pct default_input = float_lit (17 / 100) \<and>
   runoff_mm default_input = 68 \<and>
   evap_savings default_input = 165 / 10 \<and>
   evap_mm default_input = 1035 / 10 \<and>
   transp_mm default_input = 42 \<and>
   net_water default_input = 1865 / 10 \<and>
   yield_kg default_input = 565 \<and>
   erosion_rate default_input = float_lit (2 / 10)"
  by (intro conjI default_actual default_base default_rr default_final default_runoff
      default_es default_evap default_transp default_net default_yield default_er)

lemma bare_actual: "actual_rainfall bare_climate_input = 360"
  by (simp add: engine_defs bare_climate_input_def py_eval)

lemma bare_base: "base_runoff_pct bare_climate_input = float_lit (30 / 100)"
  by (simp add: base_runoff_pct_def bare_climate_input_def)

lemma bare_rr: "runoff_reduction bare_climate_input = 0"
  by (simp add: engine_defs bare_climate_input_def py_eval)

lemma bare_final: "final_runoff_pct bare_climate_input = float_lit (30 / 100)"
  by (simp add: engine_defs bare_climate_input_def py_eval)

lemma bare_runoff: "runoff_mm bare_climate_input = 108"
  by (simp add: engine_defs bare_climate_input_def py_eval)

lemma bare_es: "evap_savings bare_climate_input = 0"
  by (simp add: engine_defs bare_climate_input_def)

lemma bare_evap: "evap_mm bare_climate_input = 120"
  by (simp add: engine_defs bare_climate_input_def py_eval)

lemma bare_transp: "transp_mm bare_climate_input = 0"
  by (simp add: engine_defs bare_climate_input_def py_eval)

lemma bare_net: "net_water bare_climate_input = 132"
  by (simp add: engine_defs bare_climate_input_def py_eval)

lemma bare_yield: "yield_kg bare_climate_input = 20"
  by (simp add: engine_defs bare_climate_input_def py_eval)

lemma bare_er: "erosion_rate bare_climate_input = 3"
  by (simp add: erosion_rate_def bare_climate_input_def float_lit_3)

text \<open>
  C2. With rainfall 400, cover 0, mowing \<^verbatim>\<open>Unmowed\<close> and the climate scenario the
  engine computes actual rainfall 360, base runoff fraction 0.30, runoff reduction 0, final
  runoff fraction 0.30, runoff 108 mm, evaporation savings 0, evaporation 120 mm,
  transpiration 0, net water 132 mm, yield 20 kg and erosion rate 3.0.
\<close>

theorem scenario_bare_climate:
  "actual_rainfall bare_climate_input = 360 \<and>
   base_runoff_pct bare_climate_input = float_lit (30 / 100) \<and>
   runoff_reduction bare_climate_input = 0 \<and>
   final_runoff_pct bare_climate_input = float_lit (30 / 100) \<and>
   runoff_mm bare_climate_input = 108 \<and>
   evap_savings bare_climate_input = 0 \<and>
   evap_mm bare_climate_input = 120 \<and>
   transp_mm bare_climate_input = 0 \<and>
   net_water bare_climate_input = 132 \<and>
   yield_kg bare_climate_input = 20 \<and>
   erosion_rate bare_climate_input = 3"
  by (intro conjI bare_actual bare_base bare_rr bare_final bare_runoff
      bare_es bare_evap bare_transp bare_net bare_yield bare_er)

lemma float_005_ge: "5 / 100 \<le> float_lit (5 / 100)"
  by (simp add: py_eval)

section \<open>Floors of the outputs\<close>

text \<open>
  C3. For every input with rainfall in [200, 800], cover in [0, 100], any of the three
  mowing timings and either climate flag, the evaporation is at least 30, the yield is at
  least 0 and the final runoff fraction is at least 0.05 (both the float 0.05 of the
  source and the decimal 0.05, which lies just below it).
\<close>

theorem output_floors:
  assumes "valid_input i"
  shows "30 \<le> evap_mm i \<and> 0 \<le> yield_kg i \<and>
         float_lit (5 / 100) \<le> final_runoff_pct i \<and> 5 / 100 \<le> final_runoff_pct i"
proof -
  have e: "30 \<le> evap_mm i" by (simp add: evap_mm_def py_max_def)
  have y: "0 \<le> yield_kg i" by (simp add: yield_kg_def py_max_def)
  have f: "float_lit (5 / 100) \<le> final_runoff_pct i"
    by (simp add: final_runoff_pct_def py_max_def)
  from f float_005_ge have "5 / 100 \<le> final_runoff_pct i" by (rule order_trans [rotated])
  with e y f show ?thesis by simp
qed

theorem output_floors_witness:
  "valid_input default_input \<and> 30 \<le> evap_mm default_input \<and> 0 \<le> yield_kg default_input \<and>
   float_lit (5 / 100) \<le> final_runoff_pct default_input \<and>
   5 / 100 \<le> final_runoff_pct default_input"
  using output_floors [OF valid_default] valid_default by simp

lemma soil_depth_length: "length (soil_depth i) = 20"
  by (simp add: soil_depth_def soil_fold_length)

lemma soil_depth_first: "soil_depth i ! 0 = 1000"
  by (simp add: soil_depth_def soil_fold_keep)

lemma soil_depth_step:
  assumes "1 \<le> k" and "k < 20"
  shows "soil_depth i ! k = fsub (soil_depth i ! (k - 1)) (erosion_rate i)"
  unfolding soil_depth_def using assms by (intro soil_fold_step) simp_all

lemma soil_df_nth: "k < 20 \<Longrightarrow> soil_df i ! k = (k + 1, soil_depth i ! k)"
  by (simp add: soil_df_def years_def soil_depth_length)

section \<open>The soil depth series\<close>

text \<open>
  C4. For every valid input the soil depth series has exactly 20 entries, its first entry
  is year 1 with depth 1000, and for every \<open>n\<close> from 2 to 20 the \<open>n\<close>-th entry is year
  \<open>n\<close> with the depth of entry \<open>n - 1\<close> less the erosion rate of that input, the
  subtraction being Python's float subtraction.
\<close>

theorem soil_series:
  assumes "valid_input i"
  shows "length (soil_df i) = 20 \<and> soil_df i ! 0 = (1, 1000) \<and>
         (\<forall>n. 2 \<le> n \<and> n \<le> 20 \<longrightarrow>
            soil_df i ! (n - 1) = (n, fsub (snd (soil_df i ! (n - 2))) (erosion_rate i)))"
proof (intro conjI allI impI)
  show "length (soil_df i) = 20"
    by (simp add: soil_df_def years_def soil_depth_length)
  show "soil_df i ! 0 = (1, 1000)"
    by (simp add: soil_df_nth soil_depth_first)
next
  fix n :: nat
  assume n: "2 \<le> n \<and> n \<le> 20"
  then have "1 \<le> n - 1" and "n - 1 < 20" by arith+
  then have "soil_depth i ! (n - 1) = fsub (soil_depth i ! (n - 1 - 1)) (erosion_rate i)"
    by (rule soil_depth_step)
  moreover have "n - 1 - 1 = n - 2" by simp
  ultimately have step: "soil_depth i ! (n - 1) = fsub (soil_depth i ! (n - 2)) (erosion_rate i)"
    by simp
  have "n - 1 < 20" using n by arith
  then have d1: "soil_df i ! (n - 1) = (n - 1 + 1, soil_depth i ! (n - 1))"
    by (rule soil_df_nth)
  have "n - 2 < 20" using n by arith
  then have d2: "soil_df i ! (n - 2) = (n - 2 + 1, soil_depth i ! (n - 2))"
    by (rule soil_df_nth)
  have "n - 1 + 1 = n" using n by arith
  then show "soil_df i ! (n - 1) = (n, fsub (snd (soil_df i ! (n - 2))) (erosion_rate i))"
    unfolding d1 d2 using step by simp
qed

theorem soil_series_witness:
  "valid_input default_input \<and> length (soil_df default_input) = 20 \<and>
   soil_df default_input ! 0 = (1, 1000) \<and>
   soil_df default_input ! (2 - 1) =
     (2, fsub (snd (soil_df default_input ! (2 - 2))) (erosion_rate default_input))"
proof -
  from soil_series [OF valid_default]
  have len: "length (soil_df default_input) = 20"
    and first: "soil_df default_input ! 0 = (1, 1000)"
    and step: "\<forall>n. 2 \<le> n \<and> n \<le> 20 \<longrightarrow>
      soil_df default_input ! (n - 1) =
        (n, fsub (snd (soil_df default_input ! (n - 2))) (erosion_rate default_input))"
    by blast+
  from step have "2 \<le> (2::nat) \<and> (2::nat) \<le> 20 \<longrightarrow>
      soil_df default_input ! (2 - 1) =
        (2, fsub (snd (soil_df default_input ! (2 - 2))) (erosion_rate default_input))"
    by (rule spec)
  then have "soil_df default_input ! (2 - 1) =
        (2, fsub (snd (soil_df default_input ! (2 - 2))) (erosion_rate default_input))"
    by (rule mp) simp
  with valid_default len first show ?thesis by (intro conjI)
qed

section \<open>The erosion rate\<close>

text \<open>
  C5. For every valid input the erosion rate is exactly 3.0 under the climate scenario with
  cover below 30, exactly 2.0 without the climate scenario with cover below 30, and
  exactly the float 0.2 when the cover is 30 or more, whatever the climate flag.
\<close>

theorem erosion_step_function:
  assumes "valid_input i"
  shows "(climate_change i \<and> cover_pct i < 30 \<longrightarrow> erosion_rate i = 3) \<and>
         (\<not> climate_change i \<and> cover_pct i < 30 \<longrightarrow> erosion_rate i = 2) \<and>
         (30 \<le> cover_pct i \<longrightarrow> erosion_rate i = float_lit (2 / 10))"
  by (simp add: erosion_rate_def float_lit_3 float_lit_2)

theorem erosion_step_function_witness:
  "valid_input bare_climate_input \<and> climate_change bare_climate_input \<and>
   cover_pct bare_climate_input < 30 \<and> erosion_rate bare_climate_input = 3 \<and>
   valid_input default_input \<and> 30 \<le> cover_pct default_input \<and>
   erosion_rate default_input = float_lit (2 / 10)"
  using erosion_step_function [OF valid_bare_climate] erosion_step_function [OF valid_default]
    valid_bare_climate valid_default
  by (simp add: bare_climate_input_def default_input_def)

lemma actual_rainfall_nonneg:
  assumes "0 \<le> rainfall i"
  shows "0 \<le> actual_rainfall i"
  using assms by (simp add: actual_rainfall_def fmul_nonneg float_lit_nonneg)

lemma runoff_reduction_mono:
  assumes "cover_pct i \<le> cover_pct j"
  shows "runoff_reduction i \<le> runoff_reduction j"
  unfolding runoff_reduction_def using assms
  by (intro fmul_mono_left float_lit_nonneg int_truediv_mono) simp_all

lemma evap_savings_mono:
  assumes "cover_pct i \<le> cover_pct j" and "mowing_time i = mowing_time j"
  shows "evap_savings i \<le> evap_savings j"
proof (cases "str_in ''Early'' (mowing_time i) \<or> str_in ''Late'' (mowing_time i)")
  case True
  have "fmul (int_truediv (cover_pct i) 30) (float_lit (165 / 10))
      \<le> fmul (int_truediv (cover_pct j) 30) (float_lit (165 / 10))"
    using assms(1) by (intro fmul_mono_left float_lit_nonneg int_truediv_mono) simp_all
  with True assms(2) show ?thesis by (simp add: evap_savings_def)
next
  case False
  with assms(2) show ?thesis by (simp add: evap_savings_def)
qed

section \<open>More cover never raises runoff or evaporation\<close>

text \<open>
  C6. For two valid inputs that agree on rainfall, mowing timing and climate flag, if the
  cover of the first is at most the cover of the second, then the runoff of the first is
  at least the runoff of the second, and so is the evaporation.
\<close>

theorem cover_monotone:
  assumes "valid_input i" and "valid_input j"
    and "rainfall i = rainfall j" and "mowing_time i = mowing_time j"
    and "climate_change i = climate_change j"
    and "cover_pct i \<le> cover_pct j"
  shows "runoff_mm j \<le> runoff_mm i \<and> evap_mm j \<le> evap_mm i"
proof
  have base: "base_runoff_pct i = base_runoff_pct j"
    using assms(5) by (simp add: base_runoff_pct_def)
  have actual: "actual_rainfall i = actual_rainfall j"
    using assms(3,5) by (simp add: actual_rainfall_def)
  have "fsub (base_runoff_pct j) (runoff_reduction j) \<le> fsub (base_runoff_pct j) (runoff_reduction i)"
    using assms(6) by (intro fsub_antimono_right runoff_reduction_mono)
  then have "final_runoff_pct j \<le> final_runoff_pct i"
    unfolding final_runoff_pct_def base by (rule py_max_mono)
  moreover have "0 \<le> actual_rainfall j"
    using assms(2) by (intro actual_rainfall_nonneg) (simp add: valid_input_def)
  ultimately show "runoff_mm j \<le> runoff_mm i"
    unfolding runoff_mm_def actual by (intro fmul_mono_right)
  have "fsub base_evap (evap_savings j) \<le> fsub base_evap (evap_savings i)"
    using assms(4,6) by (intro fsub_antimono_right evap_savings_mono)
  then show "evap_mm j \<le> evap_mm i"
    unfolding evap_mm_def by (rule py_max_mono)
qed

theorem cover_monotone_witness:
  "valid_input bare_climate_input \<and> valid_input (bare_climate_input\<lparr>cover_pct := 50\<rparr>) \<and>
   cover_pct bare_climate_input \<le> cover_pct (bare_climate_input\<lparr>cover_pct := 50\<rparr>) \<and>
   runoff_mm (bare_climate_input\<lparr>cover_pct := 50\<rparr>) \<le> runoff_mm bare_climate_input \<and>
   evap_mm (bare_climate_input\<lparr>cover_pct := 50\<rparr>) \<le> evap_mm bare_climate_input"
proof -
  have v: "valid_input (bare_climate_input\<lparr>cover_pct := 50\<rparr>)"
    by (simp add: valid_input_def bare_climate_input_def mowing_options_def)
  have c: "cover_pct bare_climate_input \<le> cover_pct (bare_climate_input\<lparr>cover_pct := 50\<rparr>)"
    by (simp add: bare_climate_input_def)
  from cover_monotone [OF valid_bare_climate v _ _ _ c] valid_bare_climate v c
  show ?thesis by simp
qed

section \<open>The climate adjustment\<close>

text \<open>
  C7. For every valid input, with the climate flag set the actual rainfall is the rainfall
  times 0.9 and the base runoff fraction is 0.30; with the flag clear the actual rainfall
  is the rainfall and the base runoff fraction is 0.20. So the actual rainfall with the
  flag set is 0.9 times the actual rainfall with the flag clear, the product being
  Python's float product.
\<close>

theorem climate_adjustment:
  assumes "valid_input i"
  shows "(climate_change i \<longrightarrow>
            actual_rainfall i = fmul (of_int (rainfall i)) (float_lit (9 / 10)) \<and>
            base_runoff_pct i = float_lit (30 / 100)) \<and>
         (\<not> climate_change i \<longrightarrow>
            actual_rainfall i = of_int (rainfall i) \<and>
            base_runoff_pct i = float_lit (20 / 100)) \<and>
         actual_rainfall (i\<lparr>climate_change := True\<rparr>) =
           fmul (float_lit (9 / 10)) (actual_rainfall (i\<lparr>climate_change := False\<rparr>))"
  by (simp add: actual_rainfall_def base_runoff_pct_def fmul_commute)

theorem climate_adjustment_witness:
  "valid_input bare_climate_input \<and> climate_change bare_climate_input \<and>
   actual_rainfall bare_climate_input =
     fmul (of_int (rainfall bare_climate_input)) (float_lit (9 / 10)) \<and>
   base_runoff_pct bare_climate_input = float_lit (30 / 100) \<and>
   valid_input default_input \<and> \<not> climate_change default_input \<and>
   actual_rainfall default_input = of_int (rainfall default_input) \<and>
   base_runoff_pct default_input = float_lit (20 / 100)"
  using climate_adjustment [OF valid_bare_climate] climate_adjustment [OF valid_default]
    valid_bare_climate valid_default
  by (simp add: bare_climate_input_def default_input_def)

lemma dry_net: "net_water (dry_full_cover_input False) = - 240"
  by (simp add: engine_defs dry_full_cover_input_def py_eval)

lemma dry_net_climate: "net_water (dry_full_cover_input True) < 0"
  by (simp add: engine_defs dry_full_cover_input_def py_eval)

section \<open>Net water\<close>

text \<open>
  C8. For every valid input the net water is the actual rainfall less runoff, less
  evaporation, less transpiration (subtracted in this order, as floats), with nothing
  that clamps it; and some valid input, namely rainfall 200 with cover 100 never mowed,
  has negative net water (\<open>-240\<close> without the climate scenario).
\<close>

theorem net_water_unclamped:
  assumes "valid_input i"
  shows "net_water i =
           fsub (fsub (fsub (actual_rainfall i) (runoff_mm i)) (evap_mm i)) (transp_mm i) \<and>
         (\<exists>j. valid_input j \<and> rainfall j = 200 \<and> cover_pct j = 100 \<and>
              mowing_time j = ''Unmowed'' \<and> net_water j < 0)"
proof
  show "net_water i =
      fsub (fsub (fsub (actual_rainfall i) (runoff_mm i)) (evap_mm i)) (transp_mm i)"
    by (simp add: net_water_def)
  have "net_water (dry_full_cover_input False) < 0" by (simp add: dry_net)
  then show "\<exists>j. valid_input j \<and> rainfall j = 200 \<and> cover_pct j = 100 \<and>
      mowing_time j = ''Unmowed'' \<and> net_water j < 0"
    using valid_dry_full_cover [of False]
    by (intro exI [of _ "dry_full_cover_input False"]) (simp add: dry_full_cover_input_def)
qed

theorem net_water_unclamped_witness:
  "valid_input (dry_full_cover_input False) \<and>
   net_water (dry_full_cover_input False) =
     fsub (fsub (fsub (actual_rainfall (dry_full_cover_input False))
       (runoff_mm (dry_full_cover_input False))) (evap_mm (dry_full_cover_input False)))
       (transp_mm (dry_full_cover_input False)) \<and>
   net_water (dry_full_cover_input False) = - 240"
  using net_water_unclamped [OF valid_dry_full_cover [of False]] valid_dry_full_cover [of False]
    dry_net
  by simp

section \<open>Inputs outside the slider ranges\<close>



































lemma numeral_abs_le_pow2: "\<bar>x\<bar> \<le> 2 ^ n \<Longrightarrow> \<bar>x\<bar> \<le> pow2 (int n)"
  by (simp add: pow2_nat)



lemma valid_moderate: "valid_input i \<Longrightarrow> moderate_input i"
  by (simp add: valid_input_def moderate_input_def)







lemma float_02_pos: "0 < float_lit (2 / 10)"
  by (simp add: float_lit_def fl_pos_iff)

section \<open>The soil only gets thinner\<close>

text \<open>
  C10. For every valid input the erosion rate is strictly positive, being one of 0.2, 2.0
  and 3.0, and the depth series is strictly decreasing: each of the entries 2 to 20 is
  below the entry before it.
\<close>

theorem erosion_strictly_positive:
  assumes "valid_input i"
  shows "0 < erosion_rate i \<and>
         (erosion_rate i = float_lit (2 / 10) \<or> erosion_rate i = 2 \<or> erosion_rate i = 3) \<and>
         (\<forall>n. 2 \<le> n \<and> n \<le> 20 \<longrightarrow> snd (soil_df i ! (n - 1)) < snd (soil_df i ! (n - 2)))"
proof (intro conjI allI impI)
  show c: "erosion_rate i = float_lit (2 / 10) \<or> erosion_rate i = 2 \<or> erosion_rate i = 3"
    by (rule erosion_rate_cases)
  then show "0 < erosion_rate i" using float_02_pos by auto
next
  fix n :: nat
  assume n: "2 \<le> n \<and> n \<le> 20"
  then have "0 < n - 1" and "n - 1 < length (soil_depth i)"
    by (simp_all add: soil_depth_length) arith+
  with soil_depth_decreasing [of i]
  have "soil_depth i ! (n - 1) < soil_depth i ! (n - 1 - 1)"
    by (rule strictly_decreasing_nth)
  moreover have "n - 1 - 1 = n - 2" by simp
  moreover have "soil_df i ! (n - 1) = (n - 1 + 1, soil_depth i ! (n - 1))"
    using n by (intro soil_df_nth) arith
  moreover have "soil_df i ! (n - 2) = (n - 2 + 1, soil_depth i ! (n - 2))"
    using n by (intro soil_df_nth) arith
  ultimately show "snd (soil_df i ! (n - 1)) < snd (soil_df i ! (n - 2))" by simp
qed

theorem erosion_strictly_positive_witness:
  "valid_input default_input \<and> 0 < erosion_rate default_input \<and>
   snd (soil_df default_input ! (2 - 1)) < snd (soil_df default_input ! (2 - 2))"
proof -
  from erosion_strictly_positive [OF valid_default]
  have pos: "0 < erosion_rate default_input"
    and step: "\<forall>n. 2 \<le> n \<and> n \<le> 20 \<longrightarrow>
      snd (soil_df default_input ! (n - 1)) < snd (soil_df default_input ! (n - 2))"
    by blast+
  from step have "2 \<le> (2::nat) \<and> (2::nat) \<le> 20 \<longrightarrow>
      snd (soil_df default_input ! (2 - 1)) < snd (soil_df default_input ! (2 - 2))"
    by (rule spec)
  then have "snd (soil_df default_input ! (2 - 1)) < snd (soil_df default_input ! (2 - 2))"
    by (rule mp) simp
  with valid_default pos show ?thesis by (intro conjI)
qed

end
